theory Spec2Isabelle
  imports Complex_Main "HOL-Library.Sublist" "HOL-Library.Word"
begin

section \<open>JavaScript numbers\<close>

text \<open>
  A JavaScript number is an IEEE-754 binary64 value: a finite double, an infinity or NaN.
  A finite double is carried as the real number it denotes; the sign of zero is not
  modelled (a zero divisor is taken as \<open>+0\<close>, which is what a sum of numbers or an array
  length can be). Every arithmetic operation rounds its exact result to the nearest
  double, ties to the even significand (\<open>fl\<close>): a value \<open>x\<close> with
  \<open>2^e \<le> |x| < 2^(e+1)\<close> is rounded to a multiple of \<open>2^(e-52)\<close>, of \<open>2^(-1074)\<close> in
  the subnormal range, and a rounded magnitude of \<open>2^1024\<close> or more overflows to an
  infinity.
\<close>

datatype js_number = Num real | PosInf | NegInf | NaN

definition expo :: "real \<Rightarrow> int" where
  "expo x = \<lfloor>log 2 \<bar>x\<bar>\<rfloor>"

definition ulp :: "real \<Rightarrow> real" where
  "ulp x = 2 powi (max (expo x) (- 1022) - 52)"

definition round_even :: "real \<Rightarrow> int" where
  "round_even y =
     (if y - of_int \<lfloor>y\<rfloor> < 1 / 2 then \<lfloor>y\<rfloor>
      else if y - of_int \<lfloor>y\<rfloor> > 1 / 2 then \<lfloor>y\<rfloor> + 1
      else if even \<lfloor>y\<rfloor> then \<lfloor>y\<rfloor> else \<lfloor>y\<rfloor> + 1)"

definition fl :: "real \<Rightarrow> js_number" where
  "fl x =
     (if x = 0 then Num 0
      else if \<bar>of_int (round_even (x / ulp x)) * ulp x\<bar> \<ge> 2 ^ 1024
           then (if x > 0 then PosInf else NegInf)
      else Num (of_int (round_even (x / ulp x)) * ulp x))"

text \<open>The sign of a number, as \<open>1\<close>, \<open>-1\<close> or \<open>0\<close> (zero and NaN).\<close>

fun js_sign :: "js_number \<Rightarrow> int" where
  "js_sign (Num x) = (if x > 0 then 1 else if x < 0 then - 1 else 0)"
| "js_sign PosInf = 1"
| "js_sign NegInf = - 1"
| "js_sign NaN = 0"

definition signed_inf :: "int \<Rightarrow> js_number" where
  "signed_inf s = (if s > 0 then PosInf else if s < 0 then NegInf else NaN)"

fun js_add :: "js_number \<Rightarrow> js_number \<Rightarrow> js_number" where
  "js_add (Num x) (Num y) = fl (x + y)"
| "js_add NaN b = NaN"
| "js_add a NaN = NaN"
| "js_add PosInf NegInf = NaN"
| "js_add NegInf PosInf = NaN"
| "js_add PosInf b = PosInf"
| "js_add NegInf b = NegInf"
| "js_add a b = b"

fun js_mul :: "js_number \<Rightarrow> js_number \<Rightarrow> js_number" where
  "js_mul (Num x) (Num y) = fl (x * y)"
| "js_mul NaN b = NaN"
| "js_mul a NaN = NaN"
| "js_mul a b = signed_inf (js_sign a * js_sign b)"

fun js_div :: "js_number \<Rightarrow> js_number \<Rightarrow> js_number" where
  "js_div (Num x) (Num y) =
     (if y = 0 then signed_inf (js_sign (Num x)) else fl (x / y))"
| "js_div NaN b = NaN"
| "js_div a NaN = NaN"
| "js_div (Num x) b = Num 0"
| "js_div a (Num y) = signed_inf (js_sign a * (if y < 0 then - 1 else 1))"
| "js_div a b = NaN"

text \<open>\<^verbatim>\<open>Math.floor\<close>.\<close>

fun js_floor :: "js_number \<Rightarrow> js_number" where
  "js_floor (Num x) = Num (of_int \<lfloor>x\<rfloor>)"
| "js_floor a = a"

text \<open>The comparisons \<^verbatim>\<open><=\<close> and \<^verbatim>\<open>>=\<close>: false when an operand is NaN.\<close>

fun js_le :: "js_number \<Rightarrow> js_number \<Rightarrow> bool" where
  "js_le (Num x) (Num y) = (x \<le> y)"
| "js_le NaN b = False"
| "js_le a NaN = False"
| "js_le NegInf b = True"
| "js_le a PosInf = True"
| "js_le a b = False"

definition js_ge :: "js_number \<Rightarrow> js_number \<Rightarrow> bool" where
  "js_ge a b = js_le b a"

section \<open>Keyword configuration and weighted distribution (config.ts)\<close>

text \<open>
  The numbers of the configuration (weights, target counts, quality bounds) and of the
  distribution computed from them are JavaScript numbers, with the rounding of every
  operation. The later sections keep \<^typ>\<open>real\<close> for relevance scores and
  \<^typ>\<open>int\<close> or \<^typ>\<open>nat\<close> for qualities, counts and sizes.
\<close>

record KeywordEntry =
  primary :: string
  variations :: "string list"
  expectedResults :: js_number
  ke_category :: string

record KeywordCategory =
  name :: string
  description :: string
  weight :: js_number
  kc_keywords :: "KeywordEntry list"

record NumberRange =
  range_min :: js_number
  range_max :: js_number

record AppConfig =
  targetImageCount :: NumberRange
  ip_quality :: NumberRange
  keywordCategories :: "KeywordCategory list"

record DistributionEntry =
  de_keyword :: KeywordEntry
  targetCount :: js_number
  de_category :: string

text \<open>
  \<^verbatim>\<open>KeywordUtils.getWeightedKeywordDistribution\<close>. The \<^verbatim>\<open>reduce\<close> starts from \<open>0\<close> and
  adds the weights from left to right; \<^verbatim>\<open>category.keywords.length\<close> is the length of the
  keyword list as a number. For a category without keywords the division is by zero and
  nothing is pushed.
\<close>

definition getWeightedKeywordDistribution :: "js_number \<Rightarrow> AppConfig \<Rightarrow> DistributionEntry list" where
  "getWeightedKeywordDistribution targetTotal config =
     (let totalWeight = foldl (\<lambda>sum cat. js_add sum (weight cat)) (Num 0) (keywordCategories config) in
      concat (map (\<lambda>category.
        let categoryTarget = js_floor (js_div (js_mul targetTotal (weight category)) totalWeight);
            keywordTarget = js_floor (js_div categoryTarget (Num (real (length (kc_keywords category)))))
        in map (\<lambda>keyword. \<lparr>de_keyword = keyword, targetCount = keywordTarget,
                             de_category = name category\<rparr>) (kc_keywords category))
        (keywordCategories config)))"

text \<open>\<^verbatim>\<open>KeywordUtils.validateConfig\<close>: the list of error messages, in the source's order.\<close>

definition validateConfig :: "AppConfig \<Rightarrow> string list" where
  "validateConfig config =
     (if js_ge (range_min (targetImageCount config)) (range_max (targetImageCount config))
      then [''Minimum target count must be less than maximum''] else []) @
     (if length (keywordCategories config) = 0
      then [''At least one keyword category is required''] else []) @
     concat (map (\<lambda>category.
        (if length (kc_keywords category) = 0
         then [''Category '' @ [CHR 0x22] @ name category @ [CHR 0x22] @ '' has no keywords''] else []) @
        (if js_le (weight category) (Num 0)
         then [''Category '' @ [CHR 0x22] @ name category @ [CHR 0x22] @ '' has invalid weight''] else []))
        (keywordCategories config)) @
     (if js_ge (range_min (ip_quality config)) (range_max (ip_quality config))
      then [''Minimum quality must be less than maximum quality''] else [])"

text \<open>
  \<^verbatim>\<open>AnimeImageCollectorApp\<close>: the constructor throws on a configuration with validation
  errors; \<^verbatim>\<open>run\<close> computes the keyword distribution from
  \<^verbatim>\<open>this.config.targetImageCount.max\<close>. Only that step of \<^verbatim>\<open>run\<close> is modelled.
\<close>

text \<open>
  A thrown JavaScript value: an \<^verbatim>\<open>Error\<close> with its message, or anything else.
\<close>

datatype thrown = Error string | NonError

text \<open>\<^verbatim>\<open>Array.prototype.join\<close>.\<close>

fun join :: "string list \<Rightarrow> string \<Rightarrow> string" where
  "join [] sep = []"
| "join [x] sep = x"
| "join (x # y # ys) sep = x @ sep @ join (y # ys) sep"

definition run_keywordDistribution :: "AppConfig \<Rightarrow> thrown + DistributionEntry list" where
  "run_keywordDistribution config =
     (if length (validateConfig config) > 0
      then Inl (Error (''Configuration errors: '' @ join (validateConfig config) '', ''))
      else Inr (getWeightedKeywordDistribution (range_max (targetImageCount config)) config))"

text \<open>
  The sum of the per-keyword target counts of a distribution, as a real number: \<open>None\<close>
  when a target count is not finite.
\<close>

fun totalTargets :: "DistributionEntry list \<Rightarrow> real option" where
  "totalTargets [] = Some 0"
| "totalTargets (d # ds) =
     (case targetCount d of
        Num x \<Rightarrow> map_option (\<lambda>s. x + s) (totalTargets ds)
      | _ \<Rightarrow> None)"

text \<open>The scenario configuration: two categories weighted 2:1 with two keywords each.\<close>

definition kw :: "string \<Rightarrow> KeywordEntry" where
  "kw p = \<lparr>primary = p, variations = [], expectedResults = Num 10, ke_category = ''c''\<rparr>"

definition scenarioConfig :: AppConfig where
  "scenarioConfig =
     \<lparr>targetImageCount = \<lparr>range_min = Num 100, range_max = Num 150\<rparr>,
      ip_quality = \<lparr>range_min = Num 50, range_max = Num 80\<rparr>,
      keywordCategories =
        [\<lparr>name = ''A'', description = '''', weight = Num 2, kc_keywords = [kw ''a1'', kw ''a2'']\<rparr>,
         \<lparr>name = ''B'', description = '''', weight = Num 1, kc_keywords = [kw ''b1'', kw ''b2'']\<rparr>]\<rparr>"



section \<open>Relevance scoring and search (AdvancedImageScraper.ts)\<close>

text \<open>
  Strings are byte lists. \<^verbatim>\<open>String.prototype.includes\<close> is the contiguous-substring
  test; \<^verbatim>\<open>toLowerCase\<close> is modelled on ASCII letters only (other characters are
  left as they are).
\<close>

fun str_includes :: "string \<Rightarrow> string \<Rightarrow> bool" where
  "str_includes [] k = (k = [])"
| "str_includes (c # s) k = (prefix k (c # s) \<or> str_includes s k)"

definition toLowerChar :: "char \<Rightarrow> char" where
  "toLowerChar c =
     (case map_of (zip ''ABCDEFGHIJKLMNOPQRSTUVWXYZ'' ''abcdefghijklmnopqrstuvwxyz'') c of
        Some l \<Rightarrow> l
      | None \<Rightarrow> c)"

definition toLowerCase :: "string \<Rightarrow> string" where
  "toLowerCase s = map toLowerChar s"

text \<open>\<^verbatim>\<open>s.split(' ')[0]\<close>: the part of \<open>s\<close> before its first space.\<close>

definition firstWord :: "string \<Rightarrow> string" where
  "firstWord s = takeWhile (\<lambda>c. c \<noteq> CHR '' '') s"

record CharacterKeyword =
  ck_keyword :: string
  ck_category :: string
  ck_subcategory :: string
  ck_targetCount :: nat
  ck_relevanceScore :: real

text \<open>
  \<^verbatim>\<open>EnhancedImageData\<close>. The optional fields are options. \<^verbatim>\<open>relevanceScore\<close> is
  not set by the page extraction; scoring assigns it before anything reads it.
\<close>

record EnhancedImageData =
  url :: string
  altText :: string
  img_keyword :: string
  img_category :: string
  img_subcategory :: string
  relevanceScore :: real
  width :: "real option"
  height :: "real option"
  fileSize :: "real option"

record AdvancedScrapingConfig =
  maxImages :: nat
  maxScrolls :: nat
  relevanceThreshold :: real

definition clothingOnlyKeywords :: "string list" where
  "clothingOnlyKeywords =
     [''outfit only'', ''clothing only'', ''costume only'', ''dress only'',
      ''uniform only'', ''outfit without'', ''clothing without'',
      ''just outfit'', ''just clothing'', ''just costume'',
      ''empty outfit'', ''empty costume'', ''empty dress'',
      ''outfit design'', ''clothing design'', ''costume design'',
      ''pattern'', ''texture'', ''fabric'',
      ''mannequin'', ''hanger'', ''display'']"

definition urlClothingKeywords :: "string list" where
  "urlClothingKeywords =
     [''outfit-only'', ''clothing-only'', ''costume-only'',
      ''pattern'', ''texture'', ''design-only'',
      ''mannequin'', ''display'']"

definition isClothingOnlyImage :: "string \<Rightarrow> string \<Rightarrow> bool" where
  "isClothingOnlyImage alt u =
     (if list_ex (\<lambda>keyword. str_includes alt keyword) clothingOnlyKeywords then True
      else if list_ex (\<lambda>keyword. str_includes u keyword) urlClothingKeywords then True
      else False)"

definition characterKeywords :: "string list" where
  "characterKeywords =
     [''girl'', ''boy'', ''woman'', ''man'', ''character'',
      ''person'', ''people'', ''human'', ''figure'',
      ''face'', ''portrait'', ''body'', ''full body'',
      ''standing'', ''sitting'', ''pose'', ''posing'',
      ''smile'', ''smiling'', ''expression'',
      ''hair'', ''eyes'', ''skin'',
      ''anime girl'', ''anime boy'', ''anime character'',
      ''manga character'', ''waifu'', ''husbando'']"

definition urlCharacterKeywords :: "string list" where
  "urlCharacterKeywords =
     [''character'', ''girl'', ''boy'', ''anime-girl'', ''anime-boy'',
      ''person'', ''people'', ''human'', ''figure'',
      ''portrait'', ''face'']"

definition hasCharacterIndicators :: "string \<Rightarrow> string \<Rightarrow> bool" where
  "hasCharacterIndicators alt u =
     (if list_ex (\<lambda>keyword. str_includes alt keyword) characterKeywords then True
      else if list_ex (\<lambda>keyword. str_includes u keyword) urlCharacterKeywords then True
      else False)"

text \<open>JavaScript truthiness of an optional number: defined and non-zero.\<close>

definition truthy :: "real option \<Rightarrow> bool" where
  "truthy x = (case x of None \<Rightarrow> False | Some v \<Rightarrow> v \<noteq> 0)"

text \<open>
  The increments \<^verbatim>\<open>score += \<dots>\<close> of the inclusion pass, in the source's order; an
  increment whose condition fails is \<open>0\<close>.
\<close>

definition bonuses :: "CharacterKeyword \<Rightarrow> EnhancedImageData \<Rightarrow> real list" where
  "bonuses keywordData img =
     (let altLower = toLowerCase (altText img);
          keywordLower = toLowerCase (ck_keyword keywordData);
          imgUrlLower = toLowerCase (url img)
      in [if hasCharacterIndicators altLower imgUrlLower then 0.15 else 0,
          if str_includes altLower (firstWord keywordLower) then 0.1 else 0,
          if str_includes altLower ''anime'' then 0.05 else 0,
          if str_includes altLower ''character'' then 0.05 else 0,
          if str_includes altLower (ck_category keywordData) then 0.05 else 0,
          if str_includes altLower (ck_subcategory keywordData) then 0.05 else 0,
          if truthy (width img) \<and> truthy (height img) \<and>
             the (width img) / the (height img) \<ge> 0.7 \<and>
             the (width img) / the (height img) \<le> 1.5 then 0.05 else 0,
          if truthy (width img) \<and> truthy (height img) \<and>
             the (width img) \<ge> 300 \<and> the (width img) \<le> 800 then 0.05 else 0,
          if str_includes imgUrlLower ''anime'' then 0.05 else 0,
          if str_includes imgUrlLower ''character'' then 0.03 else 0])"

text \<open>The callback of \<^verbatim>\<open>images.map\<close> in \<^verbatim>\<open>filterRelevantImages\<close>.\<close>

definition scoreImage :: "CharacterKeyword \<Rightarrow> EnhancedImageData \<Rightarrow> EnhancedImageData" where
  "scoreImage keywordData img =
     (if isClothingOnlyImage (toLowerCase (altText img)) (toLowerCase (url img))
      then img\<lparr>relevanceScore := 0\<rparr>
      else img\<lparr>relevanceScore :=
             min (foldl (+) (ck_relevanceScore keywordData) (bonuses keywordData img)) 1\<rparr>)"

definition filterRelevantImages ::
  "AdvancedScrapingConfig \<Rightarrow> EnhancedImageData list \<Rightarrow> CharacterKeyword \<Rightarrow> EnhancedImageData list" where
  "filterRelevantImages config images keywordData =
     filter (\<lambda>img. relevanceScore img \<ge> relevanceThreshold config)
       (map (scoreImage keywordData) images)"

text \<open>
  The loop body of \<^verbatim>\<open>searchImages\<close> that adds the new unique images:
  \<^verbatim>\<open>for (const img of relevantImages) if (!images.some(e => e.url === img.url) &&
  images.length < targetCount) images.push(img)\<close>.
\<close>

definition addUnique ::
  "CharacterKeyword \<Rightarrow> EnhancedImageData list \<Rightarrow> EnhancedImageData list \<Rightarrow> EnhancedImageData list" where
  "addUnique keywordData images relevantImages =
     foldl (\<lambda>acc img.
        if \<not> list_ex (\<lambda>existing. url existing = url img) acc \<and>
           length acc < ck_targetCount keywordData
        then acc @ [img] else acc) images relevantImages"

text \<open>
  The browser and the page are external collaborators. A search observes them through
  the outcomes below; \<open>Some e\<close> and \<open>Inl e\<close> mean that the call throws \<open>e\<close>.
  \<^verbatim>\<open>waitForImages\<close> and \<^verbatim>\<open>clickShowMoreIfAvailable\<close> catch their own errors and
  have no outcome here.
\<close>

record SearchEnv =
  browserInitialized :: bool
  newPage :: "thrown option"
  navigate :: "thrown option"
  extractImageData :: "nat \<Rightarrow> thrown + EnhancedImageData list"
  scrollAndWait :: "nat \<Rightarrow> thrown option"
  pageClose :: "thrown option"

text \<open>The \<^verbatim>\<open>while\<close> loop of \<^verbatim>\<open>searchImages\<close>; \<open>Inl\<close> is an exception leaving it.\<close>

function scrollLoop ::
  "AdvancedScrapingConfig \<Rightarrow> SearchEnv \<Rightarrow> CharacterKeyword \<Rightarrow> nat \<Rightarrow> nat \<Rightarrow>
   EnhancedImageData list \<Rightarrow> thrown + EnhancedImageData list" where
  "scrollLoop config env keywordData maxS scrollCount images =
     (if scrollCount < maxS \<and> length images < ck_targetCount keywordData then
        (case extractImageData env scrollCount of
           Inl e \<Rightarrow> Inl e
         | Inr newImages \<Rightarrow>
             (case scrollAndWait env scrollCount of
                Some e \<Rightarrow> Inl e
              | None \<Rightarrow>
                  scrollLoop config env keywordData maxS (scrollCount + 1)
                    (addUnique keywordData images
                       (filterRelevantImages config newImages keywordData))))
      else Inr images)"
  by pat_completeness auto
termination
  by (relation "measure (\<lambda>(config, env, keywordData, maxS, scrollCount, images). maxS - scrollCount)")
     auto

declare scrollLoop.simps [simp del]

text \<open>The \<^verbatim>\<open>try\<close> block of \<^verbatim>\<open>searchImages\<close>.\<close>

definition searchBody ::
  "AdvancedScrapingConfig \<Rightarrow> SearchEnv \<Rightarrow> CharacterKeyword \<Rightarrow> thrown + EnhancedImageData list" where
  "searchBody config env keywordData =
     (case navigate env of
        Some e \<Rightarrow> Inl e
      | None \<Rightarrow>
          scrollLoop config env keywordData
            (min (maxScrolls config) (nat \<lceil>real (ck_targetCount keywordData) / 20\<rceil>))
            0 [])"

text \<open>
  \<^verbatim>\<open>searchImages\<close>: the guard and \<^verbatim>\<open>browser.newPage()\<close> run before the
  \<^verbatim>\<open>try\<close>; the \<^verbatim>\<open>catch\<close> turns an exception of the body into the empty list;
  \<^verbatim>\<open>page.close()\<close> runs in the \<^verbatim>\<open>finally\<close> block, where its exception replaces
  the returned value.
\<close>

definition searchImages ::
  "AdvancedScrapingConfig \<Rightarrow> SearchEnv \<Rightarrow> CharacterKeyword \<Rightarrow> thrown + EnhancedImageData list" where
  "searchImages config env keywordData =
     (if \<not> browserInitialized env then Inl (Error ''Browser not initialized'')
      else case newPage env of
        Some e \<Rightarrow> Inl e
      | None \<Rightarrow>
          (let result = (case searchBody config env keywordData of
                           Inl e \<Rightarrow> []
                         | Inr images \<Rightarrow> images)
           in case pageClose env of
                Some e \<Rightarrow> Inl e
              | None \<Rightarrow> Inr result))"

text \<open>Sample data: a keyword target, a scraper configuration and four candidates.\<close>

definition sampleKeyword :: CharacterKeyword where
  "sampleKeyword =
     \<lparr>ck_keyword = ''anime schoolgirl character uniform'', ck_category = ''female'',
      ck_subcategory = ''student'', ck_targetCount = 3, ck_relevanceScore = 0.5\<rparr>"

definition sampleScraping :: AdvancedScrapingConfig where
  "sampleScraping = \<lparr>maxImages = 200, maxScrolls = 8, relevanceThreshold = 0.85\<rparr>"

definition candidate :: "string \<Rightarrow> string \<Rightarrow> EnhancedImageData" where
  "candidate u alt =
     \<lparr>url = u, altText = alt, img_keyword = ''anime schoolgirl character uniform'',
      img_category = ''female'', img_subcategory = ''student'', relevanceScore = 0,
      width = Some 400, height = Some 400, fileSize = None\<rparr>"

definition mannequinImage :: EnhancedImageData where
  "mannequinImage = candidate ''https://x.org/x.jpg'' ''Mannequin display outfit only''"

definition fabricImage :: EnhancedImageData where
  "fabricImage = candidate ''https://x.org/Fabric.jpg'' ''Anime Girl''"

definition girlImage :: EnhancedImageData where
  "girlImage = candidate ''https://x.org/1.jpg'' ''Anime Girl''"

definition plainImage :: EnhancedImageData where
  "plainImage = candidate ''https://x.org/2.jpg'' ''tree''"

definition sampleEnv :: SearchEnv where
  "sampleEnv =
     \<lparr>browserInitialized = True, newPage = None, navigate = None,
      extractImageData = (\<lambda>n. if n = 0 then Inr [girlImage, mannequinImage, girlImage, plainImage]
                                else Inl (Error ''Timeout'')),
      scrollAndWait = (\<lambda>n. None), pageClose = None\<rparr>"

text \<open>What holds of the collected images throughout the loop of \<^verbatim>\<open>searchImages\<close>.\<close>

definition searchInvariant ::
  "AdvancedScrapingConfig \<Rightarrow> CharacterKeyword \<Rightarrow> EnhancedImageData list \<Rightarrow> bool" where
  "searchInvariant config keywordData images \<longleftrightarrow>
     distinct (map url images) \<and> length images \<le> ck_targetCount keywordData \<and>
     list_all (\<lambda>img. relevanceScore img \<ge> relevanceThreshold config) images"

section \<open>Image processing (AdvancedImageProcessor.ts)\<close>

type_synonym buffer = "8 word list"

record QualityBand =
  q_min :: int
  q_max :: int

record ProcessingOptions =
  targetWidth :: nat
  targetHeight :: nat
  jpegQuality :: QualityBand
  maxFileSize :: nat
  preserveAspectRatio :: bool
  enableSharpening :: bool
  enableNoiseReduction :: bool

text \<open>\<^verbatim>\<open>Math.round\<close>: the nearest integer, halves rounded up.\<close>

definition js_round :: "real \<Rightarrow> int" where
  "js_round x = \<lfloor>x + 1 / 2\<rfloor>"

text \<open>
  The file system and the Sharp pipeline are external. Processing one image observes
  them through the outcomes below (\<open>Inl e\<close> and \<open>Some e\<close>: the call throws \<open>e\<close>):
  the size of the input file, the decoded width and height (each possibly undefined),
  the JPEG encoding of the transformed pipeline at a quality with the options of the
  search loop (\<open>encode\<close>) and with the options of the fallback call
  (\<open>encodeFallback\<close>), and writing the output file.
\<close>

record ImageEnv =
  inputSize :: "thrown + nat"
  metadata :: "thrown + (nat option \<times> nat option)"
  encode :: "int \<Rightarrow> thrown + buffer"
  encodeFallback :: "int \<Rightarrow> thrown + buffer"
  writeFile :: "thrown option"

text \<open>
  The binary search of \<^verbatim>\<open>optimizeJpegQuality\<close>: the loop state is
  \<open>lowQuality\<close>, \<open>highQuality\<close>, \<open>bestQuality\<close> and \<open>bestBuffer\<close>. An encoder
  exception is caught inside the loop and treated like an oversized encoding.
\<close>

definition currentQualityOf :: "int \<Rightarrow> int \<Rightarrow> int" where
  "currentQualityOf lowQuality highQuality = js_round (real_of_int (lowQuality + highQuality) / 2)"

lemma currentQualityOf_between:
  assumes "lowQuality \<le> highQuality"
  shows "lowQuality \<le> currentQualityOf lowQuality highQuality"
    and "currentQualityOf lowQuality highQuality \<le> highQuality"
proof -
  have "currentQualityOf lowQuality highQuality = \<lfloor>real_of_int (lowQuality + highQuality + 1) / 2\<rfloor>"
    by (simp add: currentQualityOf_def js_round_def add_divide_distrib)
  also have "\<dots> = (lowQuality + highQuality + 1) div 2"
    by (metis floor_divide_of_int_eq of_int_numeral)
  finally have eq: "currentQualityOf lowQuality highQuality = (lowQuality + highQuality + 1) div 2" .
  show "lowQuality \<le> currentQualityOf lowQuality highQuality" using assms eq by linarith
  show "currentQualityOf lowQuality highQuality \<le> highQuality" using assms eq by linarith
qed

function qualitySearch ::
  "ImageEnv \<Rightarrow> nat \<Rightarrow> int \<Rightarrow> int \<Rightarrow> int \<Rightarrow> buffer option \<Rightarrow> int \<times> buffer option" where
  "qualitySearch env maxSize lowQuality highQuality bestQuality bestBuffer =
     (if lowQuality \<le> highQuality then
        (case encode env (currentQualityOf lowQuality highQuality) of
           Inr buf \<Rightarrow>
             if length buf \<le> maxSize
             then qualitySearch env maxSize (currentQualityOf lowQuality highQuality + 1) highQuality
                    (currentQualityOf lowQuality highQuality) (Some buf)
             else qualitySearch env maxSize lowQuality (currentQualityOf lowQuality highQuality - 1)
                    bestQuality bestBuffer
         | Inl e \<Rightarrow>
             qualitySearch env maxSize lowQuality (currentQualityOf lowQuality highQuality - 1)
               bestQuality bestBuffer)
      else (bestQuality, bestBuffer))"
  by pat_completeness auto
termination
proof (relation "measure (\<lambda>(env, maxSize, lowQuality, highQuality, bestQuality, bestBuffer).
                            nat (highQuality - lowQuality + 1))")
qed (use currentQualityOf_between in auto)

declare qualitySearch.simps [simp del]

definition optimizeJpegQuality :: "ProcessingOptions \<Rightarrow> ImageEnv \<Rightarrow> thrown + (buffer \<times> int)" where
  "optimizeJpegQuality opts env =
     (case qualitySearch env (maxFileSize opts) (q_min (jpegQuality opts)) (q_max (jpegQuality opts))
             (q_max (jpegQuality opts)) None of
        (bestQuality, Some bestBuffer) \<Rightarrow> Inr (bestBuffer, bestQuality)
      | (bestQuality, None) \<Rightarrow>
          (case encodeFallback env (q_min (jpegQuality opts)) of
             Inl e \<Rightarrow> Inl e
           | Inr bestBuffer \<Rightarrow> Inr (bestBuffer, q_min (jpegQuality opts))))"

text \<open>An encoding at quality \<open>q\<close> exists and meets the size ceiling.\<close>

definition fits :: "ImageEnv \<Rightarrow> nat \<Rightarrow> int \<Rightarrow> bool" where
  "fits env maxSize q = (case encode env q of Inr buf \<Rightarrow> length buf \<le> maxSize | Inl e \<Rightarrow> False)"

text \<open>Sample data: the default options and an encoder.\<close>

definition sampleOptions :: ProcessingOptions where
  "sampleOptions =
     \<lparr>targetWidth = 500, targetHeight = 500, jpegQuality = \<lparr>q_min = 50, q_max = 80\<rparr>,
      maxFileSize = 50000, preserveAspectRatio = True, enableSharpening = True,
      enableNoiseReduction = True\<rparr>"

definition linearEnv :: ImageEnv where
  "linearEnv =
     \<lparr>inputSize = Inr 300000, metadata = Inr (Some 2000, Some 1000),
      encode = (\<lambda>q. Inr (replicate (nat q * 700) 0)),
      encodeFallback = (\<lambda>q. Inr (replicate (nat q * 710) 0)),
      writeFile = None\<rparr>"

section \<open>Image store (AdvancedDatabaseManager.ts, DatabaseManagerSimple.ts)\<close>

datatype ProcessingStatus = Pending | Processing | Completed | Failed

record ImageRecord =
  ir_keyword :: string
  ir_category :: string
  ir_subcategory :: string
  originalUrl :: string
  ir_altText :: string
  localPath :: string
  ir_fileSize :: nat
  ir_width :: nat
  ir_height :: nat
  ir_format :: string
  jpegQualityOf :: int
  ir_relevanceScore :: real
  collectedAt :: string
  processedAt :: "string option"
  processingStatus :: ProcessingStatus

text \<open>
  The SQLite engine is an external collaborator. The model keeps what the schema and the
  statements of the source fix: the \<^verbatim>\<open>images\<close> table is a list of rows, each a rowid
  with the inserted values; \<^verbatim>\<open>id\<close> is \<^verbatim>\<open>AUTOINCREMENT\<close>: a new row gets one more than
  the counter kept in \<^verbatim>\<open>sqlite_sequence\<close> (\<open>sequence\<close>); \<^verbatim>\<open>original_url\<close> is
  \<^verbatim>\<open>UNIQUE\<close>. The connection remembers the rowid of its last successful insert.
\<close>

record Store =
  rows :: "(int \<times> ImageRecord) list"
  sequence :: int
  lastInsertRowid :: int

definition emptyStore :: Store where
  "emptyStore = \<lparr>rows = [], sequence = 0, lastInsertRowid = 0\<rparr>"

definition storedUrls :: "Store \<Rightarrow> string list" where
  "storedUrls db = map (\<lambda>row. originalUrl (snd row)) (rows db)"

text \<open>The values bound to the statement: \<^verbatim>\<open>record.jpegQuality || 75\<close>.\<close>

definition boundValues :: "ImageRecord \<Rightarrow> ImageRecord" where
  "boundValues r = r\<lparr>jpegQualityOf := (if jpegQualityOf r = 0 then 75 else jpegQualityOf r)\<rparr>"

datatype OnConflict = Abort | Ignore

text \<open>
  Running \<^verbatim>\<open>INSERT INTO images\<close> (\<open>Abort\<close>) or \<^verbatim>\<open>INSERT OR IGNORE INTO images\<close>
  (\<open>Ignore\<close>) once. \<open>fault\<close> is a failure of the engine unrelated to uniqueness
  (I/O error, locked database, closed connection), after which the statement has had no
  effect. A plain insert of a recorded URL aborts and changes nothing. An ignored insert
  adds no row and leaves the connection's last rowid alone, but the engine has already
  drawn a rowid for it, so the \<^verbatim>\<open>AUTOINCREMENT\<close> counter advances by one.
  \<open>driverPrefix\<close> is what the driver puts before SQLite's message: nothing for
  better-sqlite3, \<^verbatim>\<open>SQLITE_CONSTRAINT: \<close> for node-sqlite3.
\<close>

definition stmt_run ::
  "string \<Rightarrow> OnConflict \<Rightarrow> thrown option \<Rightarrow> Store \<Rightarrow> ImageRecord \<Rightarrow> thrown + (int \<times> Store)" where
  "stmt_run driverPrefix mode fault db r =
     (case fault of
        Some e \<Rightarrow> Inl e
      | None \<Rightarrow>
          if originalUrl r \<in> set (storedUrls db) then
            (case mode of
               Abort \<Rightarrow> Inl (Error (driverPrefix @ ''UNIQUE constraint failed: images.original_url''))
             | Ignore \<Rightarrow> Inr (lastInsertRowid db, db\<lparr>sequence := sequence db + 1\<rparr>))
          else
            Inr (sequence db + 1,
                 db\<lparr>rows := rows db @ [(sequence db + 1, boundValues r)],
                    sequence := sequence db + 1,
                    lastInsertRowid := sequence db + 1\<rparr>))"

text \<open>
  \<^verbatim>\<open>AdvancedDatabaseManager.insertImage\<close>: the result and the store afterwards. The
  catch block returns \<open>-1\<close> for an \<^verbatim>\<open>Error\<close> whose message contains
  \<^verbatim>\<open>UNIQUE constraint\<close> and rethrows everything else.
\<close>

definition insertImage :: "thrown option \<Rightarrow> Store \<Rightarrow> ImageRecord \<Rightarrow> (thrown + int) \<times> Store" where
  "insertImage fault db r =
     (case stmt_run [] Abort fault db r of
        Inr (imageId, db') \<Rightarrow> (Inr imageId, db')
      | Inl e \<Rightarrow>
          (case e of
             Error message \<Rightarrow>
               if str_includes message ''UNIQUE constraint'' then (Inr (- 1), db) else (Inl e, db)
           | NonError \<Rightarrow> (Inl e, db)))"

text \<open>
  \<^verbatim>\<open>DatabaseManager.insertImage\<close> of DatabaseManagerSimple.ts, over the promisified
  node-sqlite3 driver. Its table has fewer columns; the record type above is reused, the
  extra fields playing no role. \<open>resolved\<close> tells whether the promise of \<^verbatim>\<open>dbRun\<close> resolves
  to an object; reading \<^verbatim>\<open>lastID\<close> of an undefined result throws a TypeError inside
  the \<^verbatim>\<open>try\<close>, after the row has been inserted.
\<close>

definition simple_insertImage ::
  "bool \<Rightarrow> thrown option \<Rightarrow> Store \<Rightarrow> ImageRecord \<Rightarrow> (thrown + int) \<times> Store" where
  "simple_insertImage resolved fault db r =
     (case (case stmt_run ''SQLITE_CONSTRAINT: '' Abort fault db r of
              Inr (lastID, db') \<Rightarrow>
                if resolved then (Inr lastID, db')
                else (Inl (Error ''Cannot read properties of undefined''), db')
            | Inl e \<Rightarrow> (Inl e, db)) of
        (Inr imageId, db') \<Rightarrow> (Inr imageId, db')
      | (Inl e, db') \<Rightarrow>
          (case e of
             Error message \<Rightarrow>
               if str_includes message ''UNIQUE constraint'' then (Inr (- 1), db') else (Inl e, db')
           | NonError \<Rightarrow> (Inl e, db')))"

text \<open>
  \<^verbatim>\<open>AdvancedDatabaseManager.insertImagesBatch\<close>: the loop inside the transaction. The
  \<open>i\<close>-th statement runs under the fault \<open>faults i\<close>. On an exception the transaction
  is rolled back: the table and the sequence are restored, the exception is rethrown.
\<close>

fun batchLoop ::
  "(nat \<Rightarrow> thrown option) \<Rightarrow> nat \<Rightarrow> Store \<Rightarrow> ImageRecord list \<Rightarrow> int list \<Rightarrow>
   (thrown \<times> Store) + (int list \<times> Store)" where
  "batchLoop faults i db [] results = Inr (results, db)"
| "batchLoop faults i db (r # records) results =
     (case stmt_run [] Ignore (faults i) db r of
        Inl e \<Rightarrow> Inl (e, db)
      | Inr (rowid, db') \<Rightarrow> batchLoop faults (i + 1) db' records (results @ [rowid]))"

definition insertImagesBatch ::
  "(nat \<Rightarrow> thrown option) \<Rightarrow> Store \<Rightarrow> ImageRecord list \<Rightarrow> (thrown + int list) \<times> Store" where
  "insertImagesBatch faults db records =
     (case batchLoop faults 0 db records [] of
        Inr (results, db') \<Rightarrow> (Inr results, db')
      | Inl (e, db') \<Rightarrow> (Inl e, db\<lparr>lastInsertRowid := lastInsertRowid db'\<rparr>))"

text \<open>Sequences of operations against the store.\<close>

datatype StoreOp =
  InsertImage "thrown option" ImageRecord
| InsertImagesBatch "nat \<Rightarrow> thrown option" "ImageRecord list"

fun applyOp :: "Store \<Rightarrow> StoreOp \<Rightarrow> Store" where
  "applyOp db (InsertImage fault r) = snd (insertImage fault db r)"
| "applyOp db (InsertImagesBatch faults records) = snd (insertImagesBatch faults db records)"

definition applyOps :: "Store \<Rightarrow> StoreOp list \<Rightarrow> Store" where
  "applyOps db ops = foldl applyOp db ops"

text \<open>Sample data: a record and the same URL with other metadata.\<close>

definition sampleRecord :: "string \<Rightarrow> string \<Rightarrow> ImageRecord" where
  "sampleRecord u path =
     \<lparr>ir_keyword = ''anime girl'', ir_category = ''female'', ir_subcategory = ''student'',
      originalUrl = u, ir_altText = ''Anime Girl'', localPath = path, ir_fileSize = 49700,
      ir_width = 500, ir_height = 500, ir_format = ''jpeg'', jpegQualityOf = 71,
      ir_relevanceScore = 0.9, collectedAt = ''2025-01-01T00:00:00.000Z'', processedAt = None,
      processingStatus = Completed\<rparr>"

section \<open>JavaScript numbers: rounding lemmas\<close>

lemma p2_less_imp: "(2::real) powi a < 2 powi b \<Longrightarrow> a < b"
proof (rule ccontr)
  assume lt: "(2::real) powi a < 2 powi b" and "\<not> a < b"
  then have "b \<le> a" by simp
  then have "(2::real) powi b \<le> 2 powi a" by (rule power_int_increasing) simp
  with lt show False by simp
qed


lemma expo_bounds:
  assumes "x \<noteq> 0"
  shows "2 powi (expo x) \<le> \<bar>x\<bar> \<and> \<bar>x\<bar> < 2 powi (expo x + 1)"
proof -
  have "\<lfloor>log 2 \<bar>x\<bar>\<rfloor> = expo x" by (simp add: expo_def)
  then have "2 powr (real_of_int (expo x)) \<le> \<bar>x\<bar> \<and> \<bar>x\<bar> < 2 powr (real_of_int (expo x) + 1)"
    using floor_log_eq_powr_iff[of "\<bar>x\<bar>" 2 "expo x"] assms by simp
  moreover have "real_of_int (expo x) + 1 = real_of_int (expo x + 1)" by simp
  ultimately have "2 powr (real_of_int (expo x)) \<le> \<bar>x\<bar> \<and> \<bar>x\<bar> < 2 powr (real_of_int (expo x + 1))"
    by metis
  then show ?thesis by (simp only: powr_real_of_int' [of 2, simplified])
qed

lemma round_even_int: "round_even (of_int n) = n"
  by (simp add: round_even_def)

lemma round_even_ge: "\<lfloor>y\<rfloor> \<le> round_even y"
  by (simp add: round_even_def)


lemma fl_pos:
  assumes "0 < x" "of_int (round_even (x / ulp x)) * ulp x < 2 ^ 1024"
  shows "fl x = Num (of_int (round_even (x / ulp x)) * ulp x)"
proof -
  have u: "0 < ulp x" by (simp add: ulp_def)
  have "0 \<le> x / ulp x" using assms(1) u by simp
  then have "0 \<le> \<lfloor>x / ulp x\<rfloor>" by simp
  then have "0 \<le> round_even (x / ulp x)" using round_even_ge [of "x / ulp x"] by linarith
  then have "0 \<le> of_int (round_even (x / ulp x)) * ulp x" using u by simp
  then show ?thesis using assms unfolding fl_def by (simp add: not_le)
qed

lemma fl_0: "fl 0 = Num 0"
  by (simp add: fl_def)

lemma p53_le_p1024: "(2::real) ^ 53 + 1 \<le> 2 ^ 1024"
proof -
  have "(2::real) ^ 54 \<le> 2 ^ 1024" by (rule power_increasing) simp_all
  moreover have "(2::real) ^ 53 + 1 \<le> 2 ^ 54" by simp
  ultimately show ?thesis by (rule order_trans [rotated])
qed

lemma nat_less_p53: "M < 2 ^ 53 \<Longrightarrow> real M < 2 ^ 53"
proof -
  assume "M < 2 ^ 53"
  then have "real M < real (2 ^ 53)" by (simp only: of_nat_less_iff)
  then show ?thesis by simp
qed

lemma fl_exact:
  assumes "M < 2 ^ 53" "s \<le> 1074"
  shows "fl (real M / 2 ^ s) = Num (real M / 2 ^ s)"
proof (cases "M = 0")
  case True
  then show ?thesis by (simp add: fl_0)
next
  case False
  define x where "x = real M / 2 ^ s"
  have xpos: "0 < x" using False by (simp add: x_def)
  define e where "e = expo x"
  have b: "2 powi e \<le> x" using expo_bounds [of x] xpos by (simp add: e_def)
  have M53: "real M < 2 ^ 53" using assms(1) by (rule nat_less_p53)
  have xlt: "x < 2 powi (53 - int s)"
  proof -
    have "x < 2 ^ 53 / 2 ^ s" using M53 by (simp add: x_def divide_strict_right_mono)
    also have "\<dots> = 2 powi (53 - int s)" by (simp add: power_int_diff)
    finally show ?thesis .
  qed
  have "(2::real) powi e < 2 powi (53 - int s)" using b xlt by linarith
  then have e_lt: "e < 53 - int s" by (rule p2_less_imp)
  define t where "t = max e (- 1022) - 52"
  have u: "ulp x = 2 powi t" by (simp add: ulp_def e_def t_def)
  define j where "j = nat (- int s - t)"
  have "t \<le> - int s" using e_lt assms(2) unfolding t_def by linarith
  then have j: "int j = - int s - t" by (simp add: j_def)
  have "(2::real) powi (int j) = 2 powi (- int s) / 2 powi t"
    unfolding j by (rule power_int_diff) simp
  then have pj: "(2::real) ^ j = 1 / 2 ^ s / 2 powi t"
    by (simp add: power_int_minus divide_inverse)
  have "x / ulp x = x / 2 powi t" by (simp only: u)
  also have "\<dots> = real M * 2 ^ j" by (simp add: x_def pj)
  also have "\<dots> = of_int (int (M * 2 ^ j))" by simp
  finally have q: "x / ulp x = of_int (int (M * 2 ^ j))" .
  have "of_int (round_even (x / ulp x)) * ulp x = (x / ulp x) * ulp x"
    by (simp only: q round_even_int)
  also have "\<dots> = x" by (simp add: u)
  finally have r: "of_int (round_even (x / ulp x)) * ulp x = x" .
  have "x \<le> real M" using mult_left_mono [of 1 "2 ^ s" "real M"]
    by (simp add: x_def field_simps)
  then have "x < 2 ^ 1024" using M53 p53_le_p1024 by linarith
  then show ?thesis using fl_pos [OF xpos] r by (simp add: x_def)
qed




lemma fl_nat: "n < 2 ^ 53 \<Longrightarrow> fl (real n) = Num (real n)"
  using fl_exact [of n 0] by simp

lemma fl_numeral: "numeral k < (2::nat) ^ 53 \<Longrightarrow> fl (numeral k) = Num (numeral k)"
  using fl_nat [of "numeral k"] by simp


section \<open>Weighted distribution: proofs\<close>















section \<open>The distribution used by a run\<close>

text \<open>
  C7, as the spec states it: with globalTarget = {min: 100, max: 150} and two categories
  weighted 2:1 with two keywords each, the per-keyword targets of the run sum to 100.
  The run passes \<^verbatim>\<open>targetImageCount.max\<close> to the distributor, so the sum is not 100.
\<close>

theorem run_distribution_sum_100_counterexample:
  "map_sum id totalTargets (run_keywordDistribution scenarioConfig) \<noteq> Inr (Some 100)"
  by (simp add: run_keywordDistribution_def validateConfig_def scenarioConfig_def js_ge_def
      getWeightedKeywordDistribution_def fl_numeral)

text \<open>
  C7, amended: with targetImageCount = {min: 100, max: 150} and two categories of weights
  2 and 1 with two keywords each, the distribution the run uses is computed from the
  maximum: the per-keyword targets are 50, 50, 25, 25, summing to 150 (100 for the first
  category and 50 for the second, split evenly within each).
\<close>

theorem run_distribution_uses_max:
  assumes "targetImageCount config = \<lparr>range_min = Num 100, range_max = Num 150\<rparr>"
    and "\<not> js_ge (range_min (ip_quality config)) (range_max (ip_quality config))"
    and "keywordCategories config = [c1, c2]"
    and "weight c1 = Num 2" and "weight c2 = Num 1"
    and "kc_keywords c1 = [k1, k2]" and "kc_keywords c2 = [k3, k4]"
  shows "run_keywordDistribution config =
           Inr [\<lparr>de_keyword = k1, targetCount = Num 50, de_category = name c1\<rparr>,
                \<lparr>de_keyword = k2, targetCount = Num 50, de_category = name c1\<rparr>,
                \<lparr>de_keyword = k3, targetCount = Num 25, de_category = name c2\<rparr>,
                \<lparr>de_keyword = k4, targetCount = Num 25, de_category = name c2\<rparr>]
         \<and> map_sum id totalTargets (run_keywordDistribution config) = Inr (Some 150)"
proof -
  have v: "validateConfig config = []"
    using assms by (simp add: validateConfig_def js_ge_def)
  have d: "getWeightedKeywordDistribution (Num 150) config =
           [\<lparr>de_keyword = k1, targetCount = Num 50, de_category = name c1\<rparr>,
            \<lparr>de_keyword = k2, targetCount = Num 50, de_category = name c1\<rparr>,
            \<lparr>de_keyword = k3, targetCount = Num 25, de_category = name c2\<rparr>,
            \<lparr>de_keyword = k4, targetCount = Num 25, de_category = name c2\<rparr>]"
    using assms(3-7) by (simp add: getWeightedKeywordDistribution_def fl_numeral)
  show ?thesis
    using v d assms(1) by (simp add: run_keywordDistribution_def)
qed

theorem run_distribution_uses_max_witness:
  "run_keywordDistribution scenarioConfig =
     Inr [\<lparr>de_keyword = kw ''a1'', targetCount = Num 50, de_category = ''A''\<rparr>,
          \<lparr>de_keyword = kw ''a2'', targetCount = Num 50, de_category = ''A''\<rparr>,
          \<lparr>de_keyword = kw ''b1'', targetCount = Num 25, de_category = ''B''\<rparr>,
          \<lparr>de_keyword = kw ''b2'', targetCount = Num 25, de_category = ''B''\<rparr>]
   \<and> map_sum id totalTargets (run_keywordDistribution scenarioConfig) = Inr (Some 150)"
  using run_distribution_uses_max [of scenarioConfig
      "\<lparr>name = ''A'', description = '''', weight = Num 2, kc_keywords = [kw ''a1'', kw ''a2'']\<rparr>"
      "\<lparr>name = ''B'', description = '''', weight = Num 1, kc_keywords = [kw ''b1'', kw ''b2'']\<rparr>"
      "kw ''a1''" "kw ''a2''" "kw ''b1''" "kw ''b2''"]
  by (simp add: scenarioConfig_def js_ge_def)

section \<open>Relevance scoring: proofs\<close>

lemmas scorer_defs = scoreImage_def isClothingOnlyImage_def clothingOnlyKeywords_def
  urlClothingKeywords_def bonuses_def toLowerCase_def toLowerChar_def
  hasCharacterIndicators_def characterKeywords_def urlCharacterKeywords_def firstWord_def
  truthy_def sampleKeyword_def candidate_def

lemma isClothingOnlyImage_iff:
  "isClothingOnlyImage alt u \<longleftrightarrow>
     list_ex (str_includes alt) clothingOnlyKeywords \<or> list_ex (str_includes u) urlClothingKeywords"
  by (simp add: isClothingOnlyImage_def)

text \<open>
  C2, amended. The source keeps two exclusion lists, one matched against the alt text and
  one against the URL. For every candidate whose lowercased alt text contains a phrase of
  the alt-text list (clothingOnlyKeywords) or whose lowercased URL contains a phrase of
  the URL list (urlClothingKeywords), and for any relevanceThreshold > 0, the scorer
  assigns relevanceScore = 0 and the scored candidate is absent from the filtered result,
  whatever bonuses it would otherwise earn.
\<close>

theorem exclusion_veto:
  assumes "list_ex (str_includes (toLowerCase (altText img))) clothingOnlyKeywords \<or>
           list_ex (str_includes (toLowerCase (url img))) urlClothingKeywords"
    and "relevanceThreshold config > 0"
  shows "relevanceScore (scoreImage keywordData img) = 0 \<and>
         scoreImage keywordData img \<notin> set (filterRelevantImages config images keywordData)"
proof -
  have "isClothingOnlyImage (toLowerCase (altText img)) (toLowerCase (url img))"
    using assms(1) by (simp add: isClothingOnlyImage_iff)
  then have z: "relevanceScore (scoreImage keywordData img) = 0"
    by (simp add: scoreImage_def)
  moreover have "\<forall>r \<in> set (filterRelevantImages config images keywordData).
                   relevanceScore r \<ge> relevanceThreshold config"
    by (simp add: filterRelevantImages_def)
  ultimately show ?thesis using assms(2) by fastforce
qed

theorem exclusion_veto_witness:
  "list_ex (str_includes (toLowerCase (altText mannequinImage))) clothingOnlyKeywords \<and>
   relevanceScore (scoreImage sampleKeyword mannequinImage) = 0 \<and>
   scoreImage sampleKeyword mannequinImage
     \<notin> set (filterRelevantImages sampleScraping [mannequinImage, girlImage] sampleKeyword)"
proof -
  have h: "list_ex (str_includes (toLowerCase (altText mannequinImage))) clothingOnlyKeywords"
    by (simp add: mannequinImage_def candidate_def toLowerCase_def toLowerChar_def
        clothingOnlyKeywords_def)
  have t: "relevanceThreshold sampleScraping > 0" by (simp add: sampleScraping_def)
  show ?thesis
    using h exclusion_veto [of mannequinImage sampleScraping sampleKeyword
        "[mannequinImage, girlImage]", OF disjI1 [OF h] t]
    by simp
qed

text \<open>
  C2, as the spec states it, with one exclusion lexicon for both fields: a candidate whose
  URL contains the lexicon phrase "fabric" is scored 0.9 and kept, because "fabric" is
  only in the alt-text list.
\<close>

theorem exclusion_single_lexicon_counterexample:
  "str_includes (toLowerCase (url fabricImage)) ''fabric'' \<and>
   ''fabric'' \<in> set clothingOnlyKeywords \<and>
   relevanceThreshold sampleScraping > 0 \<and>
   relevanceScore (scoreImage sampleKeyword fabricImage) = 0.9 \<and>
   scoreImage sampleKeyword fabricImage
     \<in> set (filterRelevantImages sampleScraping [fabricImage] sampleKeyword)"
proof -
  have s: "relevanceScore (scoreImage sampleKeyword fabricImage) = 0.9"
    by (simp add: scorer_defs fabricImage_def)
  have "str_includes (toLowerCase (url fabricImage)) ''fabric''"
    by (simp add: fabricImage_def candidate_def toLowerCase_def toLowerChar_def)
  moreover have "''fabric'' \<in> set clothingOnlyKeywords"
    by (simp add: clothingOnlyKeywords_def)
  moreover have "scoreImage sampleKeyword fabricImage
     \<in> set (filterRelevantImages sampleScraping [fabricImage] sampleKeyword)"
    using s by (simp add: filterRelevantImages_def sampleScraping_def)
  ultimately show ?thesis using s by (simp add: sampleScraping_def)
qed

lemma bonuses_length: "length (bonuses keywordData img) = 10"
  by (simp add: bonuses_def Let_def)

lemma bonuses_head:
  "bonuses keywordData img ! 0 \<in> {0, 0.15}"
  "bonuses keywordData img ! 1 \<in> {0, 0.1}"
  by (simp_all add: bonuses_def Let_def)

lemma bonuses_tail:
  "0 \<le> bonuses keywordData img ! 2 \<and> bonuses keywordData img ! 2 \<le> 0.05"
  "0 \<le> bonuses keywordData img ! 3 \<and> bonuses keywordData img ! 3 \<le> 0.05"
  "0 \<le> bonuses keywordData img ! 4 \<and> bonuses keywordData img ! 4 \<le> 0.05"
  "0 \<le> bonuses keywordData img ! 5 \<and> bonuses keywordData img ! 5 \<le> 0.05"
  "0 \<le> bonuses keywordData img ! 6 \<and> bonuses keywordData img ! 6 \<le> 0.05"
  "0 \<le> bonuses keywordData img ! 7 \<and> bonuses keywordData img ! 7 \<le> 0.05"
  "0 \<le> bonuses keywordData img ! 8 \<and> bonuses keywordData img ! 8 \<le> 0.05"
  "0 \<le> bonuses keywordData img ! 9 \<and> bonuses keywordData img ! 9 \<le> 0.05"
  by (simp_all add: bonuses_def Let_def)

lemma bonuses_small:
  assumes "2 \<le> i" and "i < length (bonuses keywordData img)"
  shows "0 \<le> bonuses keywordData img ! i \<and> bonuses keywordData img ! i \<le> 0.05"
proof -
  have "i = 2 \<or> i = 3 \<or> i = 4 \<or> i = 5 \<or> i = 6 \<or> i = 7 \<or> i = 8 \<or> i = 9"
    using assms by (simp add: bonuses_length) arith
  then show ?thesis
    by (elim disjE) (simp_all only: bonuses_tail)
qed

lemma bonuses_all:
  assumes "b \<in> set (bonuses keywordData img)"
  shows "0 \<le> b \<and> b \<le> 0.15"
proof -
  from assms obtain i where i: "i < length (bonuses keywordData img)" "b = bonuses keywordData img ! i"
    by (auto simp: in_set_conv_nth)
  show ?thesis
  proof (cases "2 \<le> i")
    case True
    have "0 \<le> b \<and> b \<le> 0.05" using bonuses_small [OF True i(1)] i(2) by simp
    then show ?thesis by simp
  next
    case False
    then have "i = 0 \<or> i = 1" by arith
    then show ?thesis
    proof
      assume "i = 0"
      then show ?thesis using i(2) bonuses_head(1) [of keywordData img] by auto
    next
      assume "i = 1"
      then show ?thesis using i(2) bonuses_head(2) [of keywordData img] by auto
    qed
  qed
qed

lemma foldl_plus_sum_list: "foldl (+) (a::real) xs = a + sum_list xs"
  by (induction xs arbitrary: a) simp_all

text \<open>
  C8, amended. For every candidate that passes the exclusion pass, the character-indicator
  bonus is 0.15 when it applies, the keyword bonus (first word of the keyword found in the
  alt text) is 0.10 when it applies, every other additive bonus is at most 0.05, so each
  bonus is at most 0.15; the resulting score is the base plus the bonuses, capped at 1.0.
\<close>

theorem inclusion_bonuses_bounded:
  assumes "\<not> isClothingOnlyImage (toLowerCase (altText img)) (toLowerCase (url img))"
  shows "bonuses keywordData img ! 0 \<in> {0, 0.15} \<and>
         bonuses keywordData img ! 1 \<in> {0, 0.1} \<and>
         (\<forall>i. 2 \<le> i \<and> i < length (bonuses keywordData img) \<longrightarrow>
              0 \<le> bonuses keywordData img ! i \<and> bonuses keywordData img ! i \<le> 0.05) \<and>
         (\<forall>b \<in> set (bonuses keywordData img). 0 \<le> b \<and> b \<le> 0.15) \<and>
         relevanceScore (scoreImage keywordData img) =
           min (ck_relevanceScore keywordData + sum_list (bonuses keywordData img)) 1 \<and>
         relevanceScore (scoreImage keywordData img) \<le> 1"
proof (intro conjI allI impI ballI)
  show "bonuses keywordData img ! 0 \<in> {0, 0.15}" by (rule bonuses_head(1))
  show "bonuses keywordData img ! 1 \<in> {0, 0.1}" by (rule bonuses_head(2))
  show "relevanceScore (scoreImage keywordData img) =
           min (ck_relevanceScore keywordData + sum_list (bonuses keywordData img)) 1"
    using assms by (simp add: scoreImage_def foldl_plus_sum_list)
  then show "relevanceScore (scoreImage keywordData img) \<le> 1" by simp
next
  fix i assume "2 \<le> i \<and> i < length (bonuses keywordData img)"
  then have s: "0 \<le> bonuses keywordData img ! i \<and> bonuses keywordData img ! i \<le> 0.05"
    using bonuses_small by blast
  show "0 \<le> bonuses keywordData img ! i" using s by simp
  show "bonuses keywordData img ! i \<le> 0.05" using s by simp
next
  fix b assume "b \<in> set (bonuses keywordData img)"
  then have s: "0 \<le> b \<and> b \<le> 0.15" by (rule bonuses_all)
  show "0 \<le> b" using s by simp
  show "b \<le> 0.15" using s by simp
qed

theorem inclusion_bonuses_bounded_witness:
  "\<not> isClothingOnlyImage (toLowerCase (altText plainImage)) (toLowerCase (url plainImage)) \<and>
   bonuses sampleKeyword plainImage ! 0 \<in> {0, 0.15} \<and>
   bonuses sampleKeyword plainImage ! 1 \<in> {0, 0.1} \<and>
   relevanceScore (scoreImage sampleKeyword plainImage) =
     min (ck_relevanceScore sampleKeyword + sum_list (bonuses sampleKeyword plainImage)) 1 \<and>
   relevanceScore (scoreImage sampleKeyword plainImage) \<le> 1"
proof -
  have h: "\<not> isClothingOnlyImage (toLowerCase (altText plainImage)) (toLowerCase (url plainImage))"
    by (simp add: scorer_defs plainImage_def)
  show ?thesis
    using h inclusion_bonuses_bounded [OF h, of sampleKeyword] by blast
qed

text \<open>
  C8, as the spec states it (every bonus at most 0.05): for a candidate with alt text
  "Anime Girl" the character-indicator bonus is 0.15 and the keyword bonus is 0.10.
\<close>

theorem bonus_at_most_005_counterexample:
  "\<not> isClothingOnlyImage (toLowerCase (altText girlImage)) (toLowerCase (url girlImage)) \<and>
   bonuses sampleKeyword girlImage ! 0 = 0.15 \<and>
   bonuses sampleKeyword girlImage ! 1 = 0.1 \<and>
   \<not> bonuses sampleKeyword girlImage ! 0 \<le> 0.05 \<and>
   \<not> bonuses sampleKeyword girlImage ! 1 \<le> 0.05"
proof -
  have "\<not> isClothingOnlyImage (toLowerCase (altText girlImage)) (toLowerCase (url girlImage))"
    by (simp add: scorer_defs girlImage_def)
  moreover have "bonuses sampleKeyword girlImage = [0.15, 0.1, 0.05, 0, 0, 0, 0.05, 0.05, 0, 0]"
    by (simp add: scorer_defs girlImage_def)
  ultimately show ?thesis by simp
qed

section \<open>Search: proofs\<close>

lemma addUnique_invariant:
  assumes "searchInvariant config keywordData images"
    and "list_all (\<lambda>img. relevanceScore img \<ge> relevanceThreshold config) relevantImages"
  shows "searchInvariant config keywordData (addUnique keywordData images relevantImages)"
  using assms unfolding addUnique_def
proof (induction relevantImages arbitrary: images)
  case Nil
  then show ?case by simp
next
  case (Cons img rest)
  let ?next = "if \<not> list_ex (\<lambda>existing. url existing = url img) images \<and>
                  length images < ck_targetCount keywordData
               then images @ [img] else images"
  have "searchInvariant config keywordData ?next"
    using Cons.prems by (auto simp: searchInvariant_def list_ex_iff)
  moreover have "list_all (\<lambda>img. relevanceScore img \<ge> relevanceThreshold config) rest"
    using Cons.prems(2) by simp
  ultimately show ?case using Cons.IH [of ?next] by simp
qed

lemma filterRelevantImages_threshold:
  "list_all (\<lambda>img. relevanceScore img \<ge> relevanceThreshold config)
     (filterRelevantImages config images keywordData)"
  by (simp add: filterRelevantImages_def list_all_iff)

lemma scrollLoop_invariant:
  assumes "searchInvariant config keywordData images"
    and "scrollLoop config env keywordData maxS scrollCount images = Inr result"
  shows "searchInvariant config keywordData result"
  using assms
proof (induction config env keywordData maxS scrollCount images rule: scrollLoop.induct)
  case (1 config env keywordData maxS scrollCount images)
  show ?case
  proof (cases "scrollCount < maxS \<and> length images < ck_targetCount keywordData")
    case False
    have "scrollLoop config env keywordData maxS scrollCount images = Inr images"
      by (subst scrollLoop.simps, rule if_not_P, rule False)
    then have "result = images" using "1.prems"(2) by simp
    then show ?thesis using "1.prems"(1) by simp
  next
    case True
    have step: "scrollLoop config env keywordData maxS scrollCount images =
        (case extractImageData env scrollCount of
           Inl e \<Rightarrow> Inl e
         | Inr newImages \<Rightarrow>
             (case scrollAndWait env scrollCount of
                Some e \<Rightarrow> Inl e
              | None \<Rightarrow>
                  scrollLoop config env keywordData maxS (scrollCount + 1)
                    (addUnique keywordData images
                       (filterRelevantImages config newImages keywordData))))"
      by (subst scrollLoop.simps, rule if_P, rule True)
    obtain newImages where ex: "extractImageData env scrollCount = Inr newImages"
      using "1.prems"(2) step by (cases "extractImageData env scrollCount") simp_all
    have sc: "scrollAndWait env scrollCount = None"
      using "1.prems"(2) step ex by (cases "scrollAndWait env scrollCount") simp_all
    let ?images = "addUnique keywordData images (filterRelevantImages config newImages keywordData)"
    have rec: "scrollLoop config env keywordData maxS (scrollCount + 1) ?images = Inr result"
      using "1.prems"(2) step ex sc by simp
    have inv: "searchInvariant config keywordData ?images"
      by (rule addUnique_invariant [OF "1.prems"(1) filterRelevantImages_threshold])
    show ?thesis
      using "1.IH" [OF True ex sc inv rec] .
  qed
qed

lemma searchBody_invariant:
  assumes "searchBody config env keywordData = Inr result"
  shows "searchInvariant config keywordData result"
proof -
  have nav: "navigate env = None"
    using assms by (cases "navigate env") (simp_all add: searchBody_def)
  have init: "searchInvariant config keywordData []" by (simp add: searchInvariant_def)
  have "scrollLoop config env keywordData
          (min (maxScrolls config) (nat \<lceil>real (ck_targetCount keywordData) / 20\<rceil>)) 0 [] = Inr result"
    using assms nav by (simp add: searchBody_def)
  then show ?thesis by (rule scrollLoop_invariant [OF init])
qed

lemma searchImages_invariant:
  assumes "searchImages config env keywordData = Inr images"
  shows "searchInvariant config keywordData images"
proof (cases "searchBody config env keywordData")
  case (Inl e)
  then have "images = []"
    using assms by (auto simp: searchImages_def split: if_splits option.splits)
  then show ?thesis by (simp add: searchInvariant_def)
next
  case (Inr result)
  then have "images = result"
    using assms by (auto simp: searchImages_def split: if_splits option.splits)
  then show ?thesis using searchBody_invariant [OF Inr] by simp
qed

text \<open>
  C9, amended. Whenever searchImages returns, the list has pairwise-distinct URLs, has
  length at most keywordData.targetCount, and every image in it has relevanceScore at
  least the configured relevanceThreshold. When the browser is initialised and the page
  can be opened and closed, searchImages does return, and a failure inside the search
  (navigation, extraction or scrolling) gives the empty list.
\<close>

theorem searchImages_contract:
  "(\<forall>images. searchImages config env keywordData = Inr images \<longrightarrow>
       distinct (map url images) \<and> length images \<le> ck_targetCount keywordData \<and>
       (\<forall>img \<in> set images. relevanceScore img \<ge> relevanceThreshold config)) \<and>
   (browserInitialized env \<and> newPage env = None \<and> pageClose env = None \<longrightarrow>
       (\<exists>images. searchImages config env keywordData = Inr images) \<and>
       ((\<exists>e. searchBody config env keywordData = Inl e) \<longrightarrow>
          searchImages config env keywordData = Inr []))"
proof (intro conjI allI impI)
  fix images assume r: "searchImages config env keywordData = Inr images"
  have inv: "searchInvariant config keywordData images" by (rule searchImages_invariant [OF r])
  show "distinct (map url images)" using inv by (simp add: searchInvariant_def)
  show "length images \<le> ck_targetCount keywordData" using inv by (simp add: searchInvariant_def)
  show "\<forall>img \<in> set images. relevanceScore img \<ge> relevanceThreshold config"
    using inv by (simp add: searchInvariant_def list_all_iff)
next
  assume ok: "browserInitialized env \<and> newPage env = None \<and> pageClose env = None"
  then show "\<exists>images. searchImages config env keywordData = Inr images"
    by (simp add: searchImages_def)
next
  assume ok: "browserInitialized env \<and> newPage env = None \<and> pageClose env = None"
    and "\<exists>e. searchBody config env keywordData = Inl e"
  then show "searchImages config env keywordData = Inr []"
    by (auto simp: searchImages_def)
qed

lemma sample_scores:
  "scoreImage sampleKeyword girlImage = girlImage\<lparr>relevanceScore := 0.9\<rparr>"
  "scoreImage sampleKeyword mannequinImage = mannequinImage\<lparr>relevanceScore := 0\<rparr>"
  "scoreImage sampleKeyword plainImage = plainImage\<lparr>relevanceScore := 0.6\<rparr>"
  by (simp_all add: scorer_defs girlImage_def mannequinImage_def plainImage_def)

lemma sample_search:
  "searchImages sampleScraping sampleEnv sampleKeyword = Inr [girlImage\<lparr>relevanceScore := 0.9\<rparr>]"
proof -
  have m: "min (maxScrolls sampleScraping) (nat \<lceil>real (ck_targetCount sampleKeyword) / 20\<rceil>) = Suc 0"
    by (simp add: sampleScraping_def sampleKeyword_def)
  have f: "filterRelevantImages sampleScraping [girlImage, mannequinImage, girlImage, plainImage]
             sampleKeyword = [girlImage\<lparr>relevanceScore := 0.9\<rparr>, girlImage\<lparr>relevanceScore := 0.9\<rparr>]"
    by (simp add: filterRelevantImages_def sample_scores sampleScraping_def)
  have a: "addUnique sampleKeyword [] [girlImage\<lparr>relevanceScore := 0.9\<rparr>, girlImage\<lparr>relevanceScore := 0.9\<rparr>]
             = [girlImage\<lparr>relevanceScore := 0.9\<rparr>]"
    by (simp add: addUnique_def sampleKeyword_def)
  have l: "scrollLoop sampleScraping sampleEnv sampleKeyword (Suc 0) 0 [] = Inr [girlImage\<lparr>relevanceScore := 0.9\<rparr>]"
    apply (subst scrollLoop.simps)
    apply (simp add: sampleEnv_def f a)
    apply (subst scrollLoop.simps)
    apply (simp add: sampleKeyword_def)
    done
  have e: "browserInitialized sampleEnv" "newPage sampleEnv = None" "navigate sampleEnv = None"
    "pageClose sampleEnv = None"
    by (simp_all add: sampleEnv_def)
  have b: "searchBody sampleScraping sampleEnv sampleKeyword = Inr [girlImage\<lparr>relevanceScore := 0.9\<rparr>]"
    by (simp add: searchBody_def e m l)
  show ?thesis
    by (simp add: searchImages_def b e)
qed

lemma failing_search:
  "searchBody sampleScraping (sampleEnv\<lparr>navigate := Some (Error ''net::ERR_FAILED'')\<rparr>) sampleKeyword
     = Inl (Error ''net::ERR_FAILED'')"
  by (simp add: searchBody_def)

theorem searchImages_contract_witness:
  "searchImages sampleScraping sampleEnv sampleKeyword = Inr [girlImage\<lparr>relevanceScore := 0.9\<rparr>] \<and>
   distinct (map url [girlImage\<lparr>relevanceScore := 0.9\<rparr>]) \<and>
   length [girlImage\<lparr>relevanceScore := 0.9\<rparr>] \<le> ck_targetCount sampleKeyword \<and>
   list_all (\<lambda>img. relevanceScore img \<ge> relevanceThreshold sampleScraping)
     [girlImage\<lparr>relevanceScore := 0.9\<rparr>] \<and>
   searchImages sampleScraping (sampleEnv\<lparr>navigate := Some (Error ''net::ERR_FAILED'')\<rparr>) sampleKeyword
     = Inr []"
proof -
  let ?failing = "sampleEnv\<lparr>navigate := Some (Error ''net::ERR_FAILED'')\<rparr>"
  have ok: "browserInitialized ?failing \<and> newPage ?failing = None \<and> pageClose ?failing = None"
    by (simp add: sampleEnv_def)
  have "searchImages sampleScraping ?failing sampleKeyword = Inr []"
    using searchImages_contract [of sampleScraping ?failing sampleKeyword] ok failing_search
    by blast
  moreover have "distinct (map url [girlImage\<lparr>relevanceScore := 0.9\<rparr>]) \<and>
      length [girlImage\<lparr>relevanceScore := 0.9\<rparr>] \<le> ck_targetCount sampleKeyword \<and>
      list_all (\<lambda>img. relevanceScore img \<ge> relevanceThreshold sampleScraping)
        [girlImage\<lparr>relevanceScore := 0.9\<rparr>]"
    using searchImages_contract [of sampleScraping sampleEnv sampleKeyword] sample_search
    by (simp add: list_all_iff)
  ultimately show ?thesis using sample_search by simp
qed

text \<open>
  C9, as the spec states it (on any search failure the list is empty and no exception
  reaches the caller): with an uninitialised browser searchImages throws, and a failure
  of \<^verbatim>\<open>browser.newPage()\<close>, which runs before the \<^verbatim>\<open>try\<close>, propagates.
\<close>

theorem searchImages_throws_counterexample:
  "searchImages sampleScraping (sampleEnv\<lparr>browserInitialized := False\<rparr>) sampleKeyword
     = Inl (Error ''Browser not initialized'') \<and>
   searchImages sampleScraping (sampleEnv\<lparr>newPage := Some (Error ''Target closed'')\<rparr>) sampleKeyword
     = Inl (Error ''Target closed'')"
  by (simp add: searchImages_def sampleEnv_def)


section \<open>JPEG quality search: proofs\<close>

lemma qualitySearch_highest:
  assumes "\<forall>q q'. lowQuality \<le> q \<and> q \<le> q' \<and> q' \<le> highQuality \<and> fits env maxSize q'
              \<longrightarrow> fits env maxSize q"
    and "qualitySearch env maxSize lowQuality highQuality bestQuality bestBuffer = (rq, rb)"
  shows "if \<exists>q. lowQuality \<le> q \<and> q \<le> highQuality \<and> fits env maxSize q
         then lowQuality \<le> rq \<and> rq \<le> highQuality \<and>
              (\<exists>buf. encode env rq = Inr buf \<and> length buf \<le> maxSize \<and> rb = Some buf) \<and>
              (\<forall>q. lowQuality \<le> q \<and> q \<le> highQuality \<and> fits env maxSize q \<longrightarrow> q \<le> rq)
         else rq = bestQuality \<and> rb = bestBuffer"
  using assms
proof (induction env maxSize lowQuality highQuality bestQuality bestBuffer rule: qualitySearch.induct)
  case (1 env maxSize lowQuality highQuality bestQuality bestBuffer)
  let ?c = "currentQualityOf lowQuality highQuality"
  show ?case
  proof (cases "lowQuality \<le> highQuality")
    case False
    have "qualitySearch env maxSize lowQuality highQuality bestQuality bestBuffer
            = (bestQuality, bestBuffer)"
      by (subst qualitySearch.simps, rule if_not_P, rule False)
    then show ?thesis using "1.prems"(2) False by auto
  next
    case True
    note c = currentQualityOf_between [OF True]
    have step: "qualitySearch env maxSize lowQuality highQuality bestQuality bestBuffer =
        (case encode env ?c of
           Inr buf \<Rightarrow>
             if length buf \<le> maxSize
             then qualitySearch env maxSize (?c + 1) highQuality ?c (Some buf)
             else qualitySearch env maxSize lowQuality (?c - 1) bestQuality bestBuffer
         | Inl e \<Rightarrow> qualitySearch env maxSize lowQuality (?c - 1) bestQuality bestBuffer)"
      by (subst qualitySearch.simps, rule if_P, rule True)
    show ?thesis
    proof (cases "fits env maxSize ?c")
      case fit: True
      then obtain buf where buf: "encode env ?c = Inr buf" "length buf \<le> maxSize"
        by (auto simp: fits_def split: sum.splits)
      have rec: "qualitySearch env maxSize (?c + 1) highQuality ?c (Some buf) = (rq, rb)"
        using "1.prems"(2) step buf by simp
      have mono: "\<forall>q q'. ?c + 1 \<le> q \<and> q \<le> q' \<and> q' \<le> highQuality \<and> fits env maxSize q'
              \<longrightarrow> fits env maxSize q"
      proof (intro allI impI)
        fix q q' assume a: "?c + 1 \<le> q \<and> q \<le> q' \<and> q' \<le> highQuality \<and> fits env maxSize q'"
        then have "lowQuality \<le> q" using c(1) by linarith
        then show "fits env maxSize q" using a "1.prems"(1) by blast
      qed
      note ih = "1.IH"(2) [OF True buf(1) buf(2) mono rec]
      show ?thesis
      proof (cases "\<exists>q. ?c + 1 \<le> q \<and> q \<le> highQuality \<and> fits env maxSize q")
        case above: True
        with ih have r: "?c + 1 \<le> rq" "rq \<le> highQuality"
          "\<exists>buf. encode env rq = Inr buf \<and> length buf \<le> maxSize \<and> rb = Some buf"
          "\<forall>q. ?c + 1 \<le> q \<and> q \<le> highQuality \<and> fits env maxSize q \<longrightarrow> q \<le> rq"
          by auto
        have ex: "\<exists>q. lowQuality \<le> q \<and> q \<le> highQuality \<and> fits env maxSize q"
          using fit c by blast
        have "\<forall>q. lowQuality \<le> q \<and> q \<le> highQuality \<and> fits env maxSize q \<longrightarrow> q \<le> rq"
        proof (intro allI impI)
          fix q assume q: "lowQuality \<le> q \<and> q \<le> highQuality \<and> fits env maxSize q"
          show "q \<le> rq"
          proof (cases "?c + 1 \<le> q")
            case True
            then show ?thesis using r(4) q by blast
          next
            case False
            then show ?thesis using r(1) by linarith
          qed
        qed
        moreover have "lowQuality \<le> rq" using r(1) c(1) by linarith
        ultimately show ?thesis using ex r(2,3) by auto
      next
        case none: False
        with ih have r: "rq = ?c" "rb = Some buf" by auto
        have ex: "\<exists>q. lowQuality \<le> q \<and> q \<le> highQuality \<and> fits env maxSize q"
          using fit c by blast
        have "\<forall>q. lowQuality \<le> q \<and> q \<le> highQuality \<and> fits env maxSize q \<longrightarrow> q \<le> rq"
        proof (intro allI impI)
          fix q assume q: "lowQuality \<le> q \<and> q \<le> highQuality \<and> fits env maxSize q"
          show "q \<le> rq"
          proof (rule ccontr)
            assume "\<not> q \<le> rq"
            then have "?c + 1 \<le> q" using r(1) by linarith
            then show False using none q by blast
          qed
        qed
        then show ?thesis using ex r c buf by auto
      qed
    next
      case nofit: False
      have rec: "qualitySearch env maxSize lowQuality (?c - 1) bestQuality bestBuffer = (rq, rb)"
        using "1.prems"(2) step nofit by (auto simp: fits_def split: sum.splits if_splits)
      have mono: "\<forall>q q'. lowQuality \<le> q \<and> q \<le> q' \<and> q' \<le> ?c - 1 \<and> fits env maxSize q'
              \<longrightarrow> fits env maxSize q"
      proof (intro allI impI)
        fix q q' assume a: "lowQuality \<le> q \<and> q \<le> q' \<and> q' \<le> ?c - 1 \<and> fits env maxSize q'"
        then have "q' \<le> highQuality" using c(2) by linarith
        then show "fits env maxSize q" using a "1.prems"(1) by blast
      qed
      have above: "\<not> fits env maxSize q" if "?c \<le> q" "q \<le> highQuality" for q
      proof
        assume "fits env maxSize q"
        then have "fits env maxSize ?c" using "1.prems"(1) c(1) that by blast
        then show False using nofit by simp
      qed
      have same: "(lowQuality \<le> q \<and> q \<le> highQuality \<and> fits env maxSize q) \<longleftrightarrow>
                  (lowQuality \<le> q \<and> q \<le> ?c - 1 \<and> fits env maxSize q)" for q
      proof
        assume a: "lowQuality \<le> q \<and> q \<le> highQuality \<and> fits env maxSize q"
        then have "\<not> ?c \<le> q" using above by blast
        then show "lowQuality \<le> q \<and> q \<le> ?c - 1 \<and> fits env maxSize q" using a by linarith
      next
        assume a: "lowQuality \<le> q \<and> q \<le> ?c - 1 \<and> fits env maxSize q"
        then show "lowQuality \<le> q \<and> q \<le> highQuality \<and> fits env maxSize q" using c(2) by linarith
      qed
      have ih: "if \<exists>q. lowQuality \<le> q \<and> q \<le> ?c - 1 \<and> fits env maxSize q
         then lowQuality \<le> rq \<and> rq \<le> ?c - 1 \<and>
              (\<exists>buf. encode env rq = Inr buf \<and> length buf \<le> maxSize \<and> rb = Some buf) \<and>
              (\<forall>q. lowQuality \<le> q \<and> q \<le> ?c - 1 \<and> fits env maxSize q \<longrightarrow> q \<le> rq)
         else rq = bestQuality \<and> rb = bestBuffer"
      proof (cases "encode env ?c")
        case (Inl e)
        show ?thesis by (rule "1.IH"(1) [OF True Inl mono rec])
      next
        case (Inr buf)
        then have big: "\<not> length buf \<le> maxSize" using nofit by (simp add: fits_def)
        show ?thesis by (rule "1.IH"(3) [OF True Inr big mono rec])
      qed
      show ?thesis
      proof (cases "\<exists>q. lowQuality \<le> q \<and> q \<le> ?c - 1 \<and> fits env maxSize q")
        case True
        then have ex: "\<exists>q. lowQuality \<le> q \<and> q \<le> highQuality \<and> fits env maxSize q"
          using same by blast
        from True ih have r: "lowQuality \<le> rq" "rq \<le> ?c - 1"
          "\<exists>buf. encode env rq = Inr buf \<and> length buf \<le> maxSize \<and> rb = Some buf"
          "\<forall>q. lowQuality \<le> q \<and> q \<le> ?c - 1 \<and> fits env maxSize q \<longrightarrow> q \<le> rq"
          by auto
        have "rq \<le> highQuality" using r(2) c(2) by linarith
        moreover have "\<forall>q. lowQuality \<le> q \<and> q \<le> highQuality \<and> fits env maxSize q \<longrightarrow> q \<le> rq"
          using r(4) same by blast
        ultimately show ?thesis using ex r(1,3) by auto
      next
        case False
        then have nex: "\<not> (\<exists>q. lowQuality \<le> q \<and> q \<le> highQuality \<and> fits env maxSize q)"
          using same by blast
        from False ih have "rq = bestQuality \<and> rb = bestBuffer" by auto
        then show ?thesis using nex by auto
      qed
    qed
  qed
qed
text \<open>
  C5. Assume the encoder succeeds at every quality of the band and its output size is
  monotonically non-decreasing in the quality. Whenever some quality in the band yields an
  encoding of at most maxFileSize bytes, optimizeJpegQuality returns the highest such
  quality together with the encoding produced at that quality.
\<close>

theorem optimizeJpegQuality_highest:
  assumes "\<forall>q. q_min (jpegQuality opts) \<le> q \<and> q \<le> q_max (jpegQuality opts)
             \<longrightarrow> (\<exists>buf. encode env q = Inr buf)"
    and "\<forall>q q' buf buf'. q_min (jpegQuality opts) \<le> q \<and> q \<le> q' \<and> q' \<le> q_max (jpegQuality opts) \<and>
             encode env q = Inr buf \<and> encode env q' = Inr buf' \<longrightarrow> length buf \<le> length buf'"
    and "\<exists>q. q_min (jpegQuality opts) \<le> q \<and> q \<le> q_max (jpegQuality opts) \<and>
             fits env (maxFileSize opts) q"
  shows "\<exists>q buf. optimizeJpegQuality opts env = Inr (buf, q) \<and>
           q_min (jpegQuality opts) \<le> q \<and> q \<le> q_max (jpegQuality opts) \<and>
           encode env q = Inr buf \<and> length buf \<le> maxFileSize opts \<and>
           (\<forall>q'. q_min (jpegQuality opts) \<le> q' \<and> q' \<le> q_max (jpegQuality opts) \<and>
                 fits env (maxFileSize opts) q' \<longrightarrow> q' \<le> q)"
proof -
  let ?lo = "q_min (jpegQuality opts)" and ?hi = "q_max (jpegQuality opts)"
  let ?m = "maxFileSize opts"
  have mono: "\<forall>q q'. ?lo \<le> q \<and> q \<le> q' \<and> q' \<le> ?hi \<and> fits env ?m q' \<longrightarrow> fits env ?m q"
  proof (intro allI impI)
    fix q q' assume a: "?lo \<le> q \<and> q \<le> q' \<and> q' \<le> ?hi \<and> fits env ?m q'"
    then obtain buf' where b': "encode env q' = Inr buf'" "length buf' \<le> ?m"
      by (auto simp: fits_def split: sum.splits)
    have "?lo \<le> q \<and> q \<le> ?hi" using a by linarith
    then obtain buf where b: "encode env q = Inr buf" using assms(1) by blast
    have "length buf \<le> length buf'" using assms(2) a b b' by blast
    then show "fits env ?m q" using b b'(2) by (simp add: fits_def)
  qed
  obtain rq rb where r: "qualitySearch env ?m ?lo ?hi ?hi None = (rq, rb)"
    by (cases "qualitySearch env ?m ?lo ?hi ?hi None") auto
  from qualitySearch_highest [OF mono r] assms(3)
  obtain buf where res: "?lo \<le> rq" "rq \<le> ?hi" "encode env rq = Inr buf" "length buf \<le> ?m"
    "rb = Some buf" "\<forall>q. ?lo \<le> q \<and> q \<le> ?hi \<and> fits env ?m q \<longrightarrow> q \<le> rq"
    by auto
  have "optimizeJpegQuality opts env = Inr (buf, rq)"
    using r res(5) by (simp add: optimizeJpegQuality_def)
  then show ?thesis using res by blast
qed

lemma linearEnv_fits: "fits linearEnv 50000 q \<longleftrightarrow> nat q * 700 \<le> 50000"
  by (simp add: fits_def linearEnv_def)

theorem optimizeJpegQuality_highest_witness:
  "fits linearEnv (maxFileSize sampleOptions) 71 \<and>
   \<not> fits linearEnv (maxFileSize sampleOptions) 72 \<and>
   optimizeJpegQuality sampleOptions linearEnv = Inr (replicate 49700 0, 71)"
proof -
  have band: "q_min (jpegQuality sampleOptions) = 50" "q_max (jpegQuality sampleOptions) = 80"
    "maxFileSize sampleOptions = 50000"
    by (simp_all add: sampleOptions_def)
  have total: "\<forall>q. q_min (jpegQuality sampleOptions) \<le> q \<and> q \<le> q_max (jpegQuality sampleOptions)
             \<longrightarrow> (\<exists>buf. encode linearEnv q = Inr buf)"
    by (simp add: linearEnv_def)
  have mono: "\<forall>q q' buf buf'. q_min (jpegQuality sampleOptions) \<le> q \<and> q \<le> q' \<and>
             q' \<le> q_max (jpegQuality sampleOptions) \<and>
             encode linearEnv q = Inr buf \<and> encode linearEnv q' = Inr buf' \<longrightarrow> length buf \<le> length buf'"
    by (auto simp: linearEnv_def nat_mono)
  have f71: "fits linearEnv (maxFileSize sampleOptions) 71"
    by (simp add: band linearEnv_fits)
  have ex: "\<exists>q. q_min (jpegQuality sampleOptions) \<le> q \<and> q \<le> q_max (jpegQuality sampleOptions) \<and>
             fits linearEnv (maxFileSize sampleOptions) q"
    using f71 band by (intro exI [of _ 71]) simp
  from optimizeJpegQuality_highest [OF total mono ex]
  obtain q buf where r: "optimizeJpegQuality sampleOptions linearEnv = Inr (buf, q)"
    "encode linearEnv q = Inr buf" "length buf \<le> maxFileSize sampleOptions"
    "\<forall>q'. q_min (jpegQuality sampleOptions) \<le> q' \<and> q' \<le> q_max (jpegQuality sampleOptions) \<and>
                 fits linearEnv (maxFileSize sampleOptions) q' \<longrightarrow> q' \<le> q"
    by blast
  have "71 \<le> q" using r(4) f71 band by simp
  moreover have b: "buf = replicate (nat q * 700) 0" using r(2) by (simp add: linearEnv_def)
  then have "nat q * 700 \<le> 50000" using r(3) band by simp
  ultimately have "q = 71" by linarith
  then have "buf = replicate 49700 0" using b by simp
  moreover have "\<not> fits linearEnv (maxFileSize sampleOptions) 72"
    by (simp add: band linearEnv_fits)
  ultimately show ?thesis using r(1) f71 \<open>q = 71\<close> by simp
qed

section \<open>Image store: proofs\<close>

lemma str_includes_sublist: "str_includes s k \<longleftrightarrow> sublist k s"
  by (induction s) (simp_all add: sublist_Cons_right)

lemma unique_message_detected:
  "str_includes (driverPrefix @ ''UNIQUE constraint failed: images.original_url'') ''UNIQUE constraint''"
proof -
  have "sublist ''UNIQUE constraint''
          (driverPrefix @ ''UNIQUE constraint'' @ '' failed: images.original_url'')"
    by (rule sublist_appendI)
  then show ?thesis by (simp add: str_includes_sublist)
qed

lemma boundValues_url [simp]: "originalUrl (boundValues r) = originalUrl r"
  by (simp add: boundValues_def)

lemma stmt_run_distinct:
  assumes "distinct (storedUrls db)"
    and "stmt_run driverPrefix mode fault db r = Inr (rowid, db')"
  shows "distinct (storedUrls db')"
  using assms
  by (auto simp: stmt_run_def storedUrls_def split: option.splits if_splits OnConflict.splits)

lemma insertImage_distinct:
  assumes "distinct (storedUrls db)"
  shows "distinct (storedUrls (snd (insertImage fault db r)))"
proof (cases "stmt_run [] Abort fault db r")
  case (Inl e)
  then have "snd (insertImage fault db r) = db"
    by (simp add: insertImage_def split: thrown.splits)
  then show ?thesis using assms by simp
next
  case (Inr p)
  then obtain rowid db' where p: "p = (rowid, db')" by (cases p) auto
  then have "snd (insertImage fault db r) = db'"
    using Inr by (simp add: insertImage_def)
  then show ?thesis using stmt_run_distinct [OF assms] Inr p by simp
qed

lemma batchLoop_distinct:
  assumes "distinct (storedUrls db)"
    and "batchLoop faults i db records results = Inr (results', db')"
  shows "distinct (storedUrls db')"
  using assms
proof (induction records arbitrary: i db results)
  case Nil
  then show ?case by simp
next
  case (Cons r records)
  from Cons.prems(2) obtain rowid db1 where
    s: "stmt_run [] Ignore (faults i) db r = Inr (rowid, db1)" and
    rec: "batchLoop faults (i + 1) db1 records (results @ [rowid]) = Inr (results', db')"
    by (auto split: sum.splits)
  have "distinct (storedUrls db1)" by (rule stmt_run_distinct [OF Cons.prems(1) s])
  then show ?case using Cons.IH rec by blast
qed

lemma insertImagesBatch_distinct:
  assumes "distinct (storedUrls db)"
  shows "distinct (storedUrls (snd (insertImagesBatch faults db records)))"
proof (cases "batchLoop faults 0 db records []")
  case (Inl p)
  then obtain e db' where "p = (e, db')" by (cases p) auto
  then have "snd (insertImagesBatch faults db records) = db\<lparr>lastInsertRowid := lastInsertRowid db'\<rparr>"
    using Inl by (simp add: insertImagesBatch_def)
  then show ?thesis using assms by (simp add: storedUrls_def)
next
  case (Inr p)
  then obtain results db' where p: "p = (results, db')" by (cases p) auto
  then have "snd (insertImagesBatch faults db records) = db'"
    using Inr by (simp add: insertImagesBatch_def)
  then show ?thesis using batchLoop_distinct [OF assms] Inr p by simp
qed

lemma applyOp_distinct:
  "distinct (storedUrls db) \<Longrightarrow> distinct (storedUrls (applyOp db operation))"
  by (cases operation) (simp_all add: insertImage_distinct insertImagesBatch_distinct)

lemma applyOps_distinct:
  "distinct (storedUrls db) \<Longrightarrow> distinct (storedUrls (applyOps db ops))"
  unfolding applyOps_def
  by (induction ops arbitrary: db) (simp_all add: applyOp_distinct)

lemma insertImage_duplicate:
  assumes "originalUrl r \<in> set (storedUrls db)"
  shows "insertImage None db r = (Inr (- 1), db)"
  using assms unique_message_detected [of "[]"]
  by (simp add: insertImage_def stmt_run_def)

lemma insertImagesBatch_duplicate:
  assumes "originalUrl r \<in> set (storedUrls db)"
  shows "insertImagesBatch (\<lambda>i. None) db [r] =
           (Inr [lastInsertRowid db], db\<lparr>sequence := sequence db + 1\<rparr>)"
  using assms by (simp add: insertImagesBatch_def stmt_run_def)

text \<open>
  C3. For every sequence of insertImage and insertImagesBatch operations against a store
  whose URLs are pairwise distinct (in particular the empty store), the persisted records
  still have pairwise-distinct originalUrl afterwards, so at all times at most one record
  exists per originalUrl; an insert attempt for an already-recorded URL leaves the
  persisted records unchanged and returns normally: insertImage returns the sentinel -1
  and leaves the whole store as it was, insertImagesBatch returns the connection's last
  rowid and leaves the table as it was (only the AUTOINCREMENT counter advances).
\<close>

theorem store_url_unique:
  assumes "distinct (storedUrls db)"
  shows "distinct (storedUrls (applyOps db ops)) \<and>
         (\<forall>r. originalUrl r \<in> set (storedUrls db) \<longrightarrow>
              insertImage None db r = (Inr (- 1), db) \<and>
              fst (insertImagesBatch (\<lambda>i. None) db [r]) = Inr [lastInsertRowid db] \<and>
              rows (snd (insertImagesBatch (\<lambda>i. None) db [r])) = rows db)"
  using applyOps_distinct [OF assms] insertImage_duplicate insertImagesBatch_duplicate
  by simp

text \<open>The store after a first insert into the empty store.\<close>

lemma sample_first_insert:
  "insertImage None emptyStore (sampleRecord ''https://x.org/1.jpg'' ''a.jpg'') =
     (Inr 1, \<lparr>rows = [(1, sampleRecord ''https://x.org/1.jpg'' ''a.jpg'')], sequence = 1,
              lastInsertRowid = 1\<rparr>)"
  by (simp add: insertImage_def stmt_run_def emptyStore_def storedUrls_def boundValues_def
      sampleRecord_def)

theorem store_url_unique_witness:
  "distinct (storedUrls emptyStore) \<and>
   distinct (storedUrls (applyOps emptyStore
     [InsertImage None (sampleRecord ''https://x.org/1.jpg'' ''a.jpg''),
      InsertImage None (sampleRecord ''https://x.org/1.jpg'' ''b.jpg''),
      InsertImagesBatch (\<lambda>i. None)
        [sampleRecord ''https://x.org/1.jpg'' ''c.jpg'', sampleRecord ''https://x.org/2.jpg'' ''d.jpg'']])) \<and>
   insertImage None
     \<lparr>rows = [(1, sampleRecord ''https://x.org/1.jpg'' ''a.jpg'')], sequence = 1, lastInsertRowid = 1\<rparr>
     (sampleRecord ''https://x.org/1.jpg'' ''b.jpg'') =
     (Inr (- 1),
      \<lparr>rows = [(1, sampleRecord ''https://x.org/1.jpg'' ''a.jpg'')], sequence = 1, lastInsertRowid = 1\<rparr>) \<and>
   fst (insertImagesBatch (\<lambda>i. None)
     \<lparr>rows = [(1, sampleRecord ''https://x.org/1.jpg'' ''a.jpg'')], sequence = 1, lastInsertRowid = 1\<rparr>
     [sampleRecord ''https://x.org/1.jpg'' ''c.jpg'']) = Inr [1] \<and>
   rows (snd (insertImagesBatch (\<lambda>i. None)
     \<lparr>rows = [(1, sampleRecord ''https://x.org/1.jpg'' ''a.jpg'')], sequence = 1, lastInsertRowid = 1\<rparr>
     [sampleRecord ''https://x.org/1.jpg'' ''c.jpg''])) =
     [(1, sampleRecord ''https://x.org/1.jpg'' ''a.jpg'')]"
proof -
  let ?db = "\<lparr>rows = [(1, sampleRecord ''https://x.org/1.jpg'' ''a.jpg'')], sequence = 1,
              lastInsertRowid = 1\<rparr>"
  have e: "distinct (storedUrls emptyStore)" by (simp add: storedUrls_def emptyStore_def)
  have d: "distinct (storedUrls ?db)" by (simp add: storedUrls_def)
  have u: "originalUrl (sampleRecord ''https://x.org/1.jpg'' ''b.jpg'') \<in> set (storedUrls ?db)"
    "originalUrl (sampleRecord ''https://x.org/1.jpg'' ''c.jpg'') \<in> set (storedUrls ?db)"
    by (simp_all add: storedUrls_def sampleRecord_def)
  note t = store_url_unique [OF d]
  have "insertImage None ?db (sampleRecord ''https://x.org/1.jpg'' ''b.jpg'') = (Inr (- 1), ?db)"
    using t u(1) by blast
  moreover have "fst (insertImagesBatch (\<lambda>i. None) ?db [sampleRecord ''https://x.org/1.jpg'' ''c.jpg''])
        = Inr [lastInsertRowid ?db] \<and>
      rows (snd (insertImagesBatch (\<lambda>i. None) ?db [sampleRecord ''https://x.org/1.jpg'' ''c.jpg'']))
        = rows ?db"
    using t u(2) by blast
  ultimately show ?thesis using e store_url_unique [OF e] by simp
qed

text \<open>
  C10. When a single-record insert violates the unique originalUrl constraint, insertImage
  returns the sentinel id -1 instead of throwing and leaves the store as it was; every
  other failure during the insert (an Error whose message does not contain "UNIQUE
  constraint", or a thrown value that is not an Error) is rethrown to the caller. Both
  insertImage variants behave this way.
\<close>

theorem insertImage_sentinel:
  "(originalUrl r \<in> set (storedUrls db) \<longrightarrow>
      insertImage None db r = (Inr (- 1), db) \<and>
      simple_insertImage resolved None db r = (Inr (- 1), db)) \<and>
   (\<forall>message. \<not> str_includes message ''UNIQUE constraint'' \<longrightarrow>
      insertImage (Some (Error message)) db r = (Inl (Error message), db) \<and>
      simple_insertImage resolved (Some (Error message)) db r = (Inl (Error message), db)) \<and>
   insertImage (Some NonError) db r = (Inl NonError, db) \<and>
   simple_insertImage resolved (Some NonError) db r = (Inl NonError, db)"
proof (intro conjI allI impI)
  assume d: "originalUrl r \<in> set (storedUrls db)"
  show "insertImage None db r = (Inr (- 1), db)" by (rule insertImage_duplicate [OF d])
  show "simple_insertImage resolved None db r = (Inr (- 1), db)"
    using d unique_message_detected [of "''SQLITE_CONSTRAINT: ''"]
    by (simp add: simple_insertImage_def stmt_run_def)
next
  fix message assume m: "\<not> str_includes message ''UNIQUE constraint''"
  show "insertImage (Some (Error message)) db r = (Inl (Error message), db)"
    using m by (simp add: insertImage_def stmt_run_def)
  show "simple_insertImage resolved (Some (Error message)) db r = (Inl (Error message), db)"
    using m by (simp add: simple_insertImage_def stmt_run_def)
next
  show "insertImage (Some NonError) db r = (Inl NonError, db)"
    by (simp add: insertImage_def stmt_run_def)
  show "simple_insertImage resolved (Some NonError) db r = (Inl NonError, db)"
    by (simp add: simple_insertImage_def stmt_run_def)
qed
theorem insertImage_sentinel_witness:
  "insertImage None
     \<lparr>rows = [(1, sampleRecord ''https://x.org/1.jpg'' ''a.jpg'')], sequence = 1, lastInsertRowid = 1\<rparr>
     (sampleRecord ''https://x.org/1.jpg'' ''b.jpg'') =
     (Inr (- 1),
      \<lparr>rows = [(1, sampleRecord ''https://x.org/1.jpg'' ''a.jpg'')], sequence = 1, lastInsertRowid = 1\<rparr>) \<and>
   \<not> str_includes ''disk I/O error'' ''UNIQUE constraint'' \<and>
   insertImage (Some (Error ''disk I/O error'')) emptyStore (sampleRecord ''https://x.org/1.jpg'' ''a.jpg'') =
     (Inl (Error ''disk I/O error''), emptyStore) \<and>
   simple_insertImage True (Some (Error ''disk I/O error'')) emptyStore
     (sampleRecord ''https://x.org/1.jpg'' ''a.jpg'') =
     (Inl (Error ''disk I/O error''), emptyStore)"
proof -
  let ?db = "\<lparr>rows = [(1, sampleRecord ''https://x.org/1.jpg'' ''a.jpg'')], sequence = 1,
              lastInsertRowid = 1\<rparr>"
  have u: "originalUrl (sampleRecord ''https://x.org/1.jpg'' ''b.jpg'') \<in> set (storedUrls ?db)"
    by (simp add: storedUrls_def sampleRecord_def)
  have m: "\<not> str_includes ''disk I/O error'' ''UNIQUE constraint''" by simp
  have "insertImage None ?db (sampleRecord ''https://x.org/1.jpg'' ''b.jpg'') = (Inr (- 1), ?db)"
    using insertImage_sentinel [of "sampleRecord ''https://x.org/1.jpg'' ''b.jpg''" ?db True] u
    by blast
  moreover have "insertImage (Some (Error ''disk I/O error'')) emptyStore
       (sampleRecord ''https://x.org/1.jpg'' ''a.jpg'') = (Inl (Error ''disk I/O error''), emptyStore) \<and>
     simple_insertImage True (Some (Error ''disk I/O error'')) emptyStore
       (sampleRecord ''https://x.org/1.jpg'' ''a.jpg'') = (Inl (Error ''disk I/O error''), emptyStore)"
    using insertImage_sentinel [of "sampleRecord ''https://x.org/1.jpg'' ''a.jpg''" emptyStore True] m
    by blast
  ultimately show ?thesis using m by blast
qed

end
